theory Spec2Isabelle
  imports Complex_Main
begin

section \<open>JavaScript values\<close>

text \<open>
  The cached payloads are values of type \<open>any\<close>. The model keeps the shapes the source
  tests for: \<open>undefined\<close>, \<open>null\<close>, booleans, integral numbers, strings, and objects
  (an object is opaque here and stands for any JSON payload, arrays included; it is
  identified by a number). Numbers are integral, so the falsy \<open>NaN\<close> is not among them.
\<close>

datatype jsval =
    Undefined
  | Null
  | Bool bool
  | Num int
  | Str string
  | Obj nat

text \<open>The truthiness test of \<open>if (x)\<close> and \<open>x && y\<close>.\<close>

fun truthy :: "jsval \<Rightarrow> bool" where
  "truthy Undefined = False"
| "truthy Null = False"
| "truthy (Bool b) = b"
| "truthy (Num n) = (n \<noteq> 0)"
| "truthy (Str s) = (s \<noteq> [])"
| "truthy (Obj _) = True"

section \<open>DashboardCache (src/cache/dashboardCache.ts)\<close>

text \<open>
  \<^verbatim>\<open>private cache = new Map<string, { data: any; timestamp: number; ttl: number }>()\<close>

  \<open>timestamp\<close> is a reading of \<open>Date.now()\<close>, in milliseconds; \<open>ttl\<close> is in seconds.
\<close>

record item =
  data :: jsval
  timestamp :: int
  ttl :: int

type_synonym dashboard_cache = "string \<rightharpoonup> item"

text \<open>
  \<^verbatim>\<open>
  async get(key) {
    const item = this.cache.get(key);
    if (!item) return null;
    const now = Date.now();
    if (now - item.timestamp > item.ttl * 1000) {
      this.cache.delete(key);
      return null;
    }
    return item.data;
  }
  \<close>
  The clock reading \<open>now\<close> is an argument; the result is the returned value and the map
  after the call.
\<close>

definition DashboardCache_get ::
  "string \<Rightarrow> int \<Rightarrow> dashboard_cache \<Rightarrow> jsval \<times> dashboard_cache" where
  "DashboardCache_get key now c =
     (case c key of
        None \<Rightarrow> (Null, c)
      | Some it \<Rightarrow>
          if now - timestamp it > ttl it * 1000
          then (Null, c(key := None))
          else (data it, c))"

text \<open>
  \<^verbatim>\<open>
  async set(key, data, ttlSeconds = 120) {
    this.cache.set(key, { data, timestamp: Date.now(), ttl: ttlSeconds });
  }
  \<close>
  An omitted third argument is \<open>None\<close>.
\<close>

definition DashboardCache_set ::
  "string \<Rightarrow> jsval \<Rightarrow> int option \<Rightarrow> int \<Rightarrow> dashboard_cache \<Rightarrow> dashboard_cache" where
  "DashboardCache_set key d ttlSeconds now c =
     c(key \<mapsto> \<lparr>data = d, timestamp = now,
                 ttl = (case ttlSeconds of None \<Rightarrow> 120 | Some t \<Rightarrow> t)\<rparr>)"

text \<open>\<^verbatim>\<open>async clear() { this.cache.clear(); }\<close>\<close>

definition DashboardCache_clear :: "dashboard_cache \<Rightarrow> dashboard_cache" where
  "DashboardCache_clear c = Map.empty"

section \<open>String helpers of the JavaScript library\<close>

text \<open>
  \<open>Array.prototype.join\<close>: the elements separated by \<open>sep\<close>; the empty array gives the
  empty string.
\<close>

fun js_join :: "string \<Rightarrow> string list \<Rightarrow> string" where
  "js_join sep [] = []"
| "js_join sep [x] = x"
| "js_join sep (x # y # ys) = x @ sep @ js_join sep (y # ys)"

text \<open>
  \<open>String.prototype.split\<close> for a separator of one character: the result is never
  empty, the empty string splits into one empty segment.
\<close>

fun js_split :: "char \<Rightarrow> string \<Rightarrow> string list" where
  "js_split sep [] = [[]]"
| "js_split sep (c # cs) =
     (if c = sep then [] # js_split sep cs
      else (case js_split sep cs of
              [] \<Rightarrow> [[c]]
            | seg # segs \<Rightarrow> (c # seg) # segs))"

text \<open>\<open>String.prototype.startsWith\<close>.\<close>

definition startsWith :: "string \<Rightarrow> string \<Rightarrow> bool" where
  "startsWith s p = (take (length p) s = p)"

section \<open>The key builder (src/services/mensaje.service.ts, src/services/dashboard.service.ts)\<close>

text \<open>
  \<^verbatim>\<open>
  private createCacheKey(type: string, ...params: string[]): string {
    return `${type}_${params.join('_')}`;
  }
  \<close>
  The two services define the same method.
\<close>

definition createCacheKey :: "string \<Rightarrow> string list \<Rightarrow> string" where
  "createCacheKey type params = type @ ''_'' @ js_join ''_'' params"

section \<open>The store behind \<open>cache\<close> (src/cache/simpleCache.ts)\<close>

text \<open>
  \<^verbatim>\<open>
  const cache = new NodeCache({ stdTTL: 300, checkperiod: 60, useClones: false, maxKeys: 500 });
  \<close>
  \<open>NodeCache\<close> is the class of the package \<open>node-cache\<close>; none of its code is under
  \<open>src/\<close>. The operations the repository calls on it (\<open>get\<close>, \<open>set\<close>, \<open>del\<close>,
  \<open>keys\<close>, \<open>getStats\<close>, \<open>flushAll\<close>) follow the spec's TTLStore (section 4.1).
\<close>

text \<open>
  Modelled from the spec: the entry of the store ("value", "storedAt", "ttlSeconds"; the
  key is kept beside it) and the state of the store: the entries in insertion order,
  oldest first, the cumulative hit and miss counters, and the capacity.
\<close>

record entry =
  val :: jsval
  storedAt :: int
  ttlSeconds :: int

record node_cache =
  entries :: "(string \<times> entry) list"
  hitCount :: nat
  missCount :: nat
  maxEntries :: nat

text \<open>
  Modelled from the spec: the expiry check of the store, \<open>now - storedAt > ttlSeconds\<close>
  (strict; the clock of the store counts in the unit of the time to live).
\<close>

definition expired :: "int \<Rightarrow> entry \<Rightarrow> bool" where
  "expired now e = (now - storedAt e > ttlSeconds e)"

text \<open>The store as the module creates it: empty, with \<open>maxKeys: 500\<close>.\<close>

definition cache :: node_cache where
  "cache = \<lparr>entries = [], hitCount = 0, missCount = 0, maxEntries = 500\<rparr>"

text \<open>
  Modelled from the spec: \<open>NodeCache.get\<close>. "returns the value if present and not expired;
  if expired, behaves as absent and physically discards the entry"; the store counts the
  hit or the miss. \<open>None\<close> is absent.
\<close>

definition cache_get :: "string \<Rightarrow> int \<Rightarrow> node_cache \<Rightarrow> jsval option \<times> node_cache" where
  "cache_get key now s =
     (case map_of (entries s) key of
        None \<Rightarrow> (None, s\<lparr>missCount := missCount s + 1\<rparr>)
      | Some e \<Rightarrow>
          if expired now e
          then (None, s\<lparr>entries := filter (\<lambda>p. fst p \<noteq> key) (entries s),
                         missCount := missCount s + 1\<rparr>)
          else (Some (val e), s\<lparr>hitCount := hitCount s + 1\<rparr>))"

text \<open>
  Modelled from the spec: \<open>NodeCache.set\<close>. "inserts or replaces. If this insertion would
  exceed global capacity and key is new, evict before inserting"; the evicted entry is the
  least recently inserted one. A replaced entry is recreated at the young end.
\<close>

definition cache_set :: "string \<Rightarrow> jsval \<Rightarrow> int \<Rightarrow> int \<Rightarrow> node_cache \<Rightarrow> node_cache" where
  "cache_set key v t now s =
     (let e = \<lparr>val = v, storedAt = now, ttlSeconds = t\<rparr> in
      if key \<in> fst ` set (entries s)
      then s\<lparr>entries := filter (\<lambda>p. fst p \<noteq> key) (entries s) @ [(key, e)]\<rparr>
      else if maxEntries s \<le> length (entries s)
      then s\<lparr>entries := tl (entries s) @ [(key, e)]\<rparr>
      else s\<lparr>entries := entries s @ [(key, e)]\<rparr>)"

text \<open>Modelled from the spec: \<open>NodeCache.del\<close>, "removes if present; no-op otherwise".\<close>

definition cache_del :: "string \<Rightarrow> node_cache \<Rightarrow> node_cache" where
  "cache_del key s = s\<lparr>entries := filter (\<lambda>p. fst p \<noteq> key) (entries s)\<rparr>"

text \<open>
  Modelled from the spec: \<open>NodeCache.keys\<close>, "snapshot of all non-expired key names".
\<close>

definition cache_keys :: "int \<Rightarrow> node_cache \<Rightarrow> string list" where
  "cache_keys now s = map fst (filter (\<lambda>p. \<not> expired now (snd p)) (entries s))"

text \<open>Modelled from the spec: \<open>NodeCache.flushAll\<close>, "removes everything".\<close>

definition cache_flushAll :: "node_cache \<Rightarrow> node_cache" where
  "cache_flushAll s = s\<lparr>entries := []\<rparr>"

text \<open>
  Modelled from the spec: \<open>NodeCache.getStats\<close>, the cumulative counters; the repository
  reads the fields \<open>hits\<close> and \<open>misses\<close> of the result.
\<close>

record node_stats =
  stats_hits :: nat
  stats_misses :: nat

definition cache_getStats :: "node_cache \<Rightarrow> node_stats" where
  "cache_getStats s = \<lparr>stats_hits = hitCount s, stats_misses = missCount s\<rparr>"

section \<open>The policy table (src/cache/simpleCache.ts)\<close>

text \<open>\<^verbatim>\<open>interface CacheConfig { ttl: number; desc: string; }\<close>\<close>

record CacheConfig =
  config_ttl :: int
  config_desc :: string

text \<open>
  \<^verbatim>\<open>const cacheConfig: Record<string, CacheConfig> = { dashboard: { ttl: 180, ... }, ... }\<close>
  in the order of the source.
\<close>

definition cacheConfig :: "(string \<times> CacheConfig) list" where
  "cacheConfig =
    [(''dashboard'', \<lparr>config_ttl = 180, config_desc = ''Dashboard - 3 min''\<rparr>),
     (''mensajes'', \<lparr>config_ttl = 120, config_desc = ''Lista mensajes - 2 min''\<rparr>),
     (''anuncios'', \<lparr>config_ttl = 300, config_desc = ''Anuncios - 5 min''\<rparr>),
     (''notificaciones'', \<lparr>config_ttl = 60, config_desc = ''Notificaciones - 1 min''\<rparr>),
     (''calificaciones'', \<lparr>config_ttl = 240, config_desc = ''Calificaciones - 4 min''\<rparr>),
     (''cursos'', \<lparr>config_ttl = 600, config_desc = ''Lista cursos - 10 min''\<rparr>),
     (''usuarios'', \<lparr>config_ttl = 900, config_desc = ''Lista usuarios - 15 min''\<rparr>),
     (''dashboard_rol'', \<lparr>config_ttl = 300, config_desc = ''Resumen por rol - 5 min''\<rparr>),
     (''dashboard_completo'', \<lparr>config_ttl = 180, config_desc = ''Dashboard completo - 3 min''\<rparr>),
     (''eventos_hoy'', \<lparr>config_ttl = 600, config_desc = ''Eventos del dia - 10 min''\<rparr>),
     (''metricas_avanzadas'', \<lparr>config_ttl = 900, config_desc = ''Metricas avanzadas - 15 min''\<rparr>),
     (''promedio_periodo'', \<lparr>config_ttl = 300, config_desc = ''Promedio periodo - 5 min''\<rparr>),
     (''promedio_asignatura'', \<lparr>config_ttl = 600, config_desc = ''Promedio asignatura - 10 min''\<rparr>),
     (''estadisticas_grupo'', \<lparr>config_ttl = 180, config_desc = ''Estadisticas grupo - 3 min''\<rparr>),
     (''destinatarios'', \<lparr>config_ttl = 120, config_desc = ''Posibles destinatarios - 2 min''\<rparr>),
     (''cursos_destinatarios'', \<lparr>config_ttl = 600, config_desc = ''Cursos para mensajes - 10 min''\<rparr>),
     (''acudientes'', \<lparr>config_ttl = 300, config_desc = ''Acudientes estudiante - 5 min''\<rparr>),
     (''lista_mensajes'', \<lparr>config_ttl = 120, config_desc = ''Lista mensajes - 2 min''\<rparr>),
     (''asistencia'', \<lparr>config_ttl = 240, config_desc = ''Asistencia - 4 min''\<rparr>),
     (''escuela'', \<lparr>config_ttl = 1800, config_desc = ''Info escuela - 30 min''\<rparr>),
     (''logros'', \<lparr>config_ttl = 900, config_desc = ''Logros - 15 min''\<rparr>)]"

section \<open>Read-through lookup (getOrSetCache of the two services)\<close>

text \<open>
  \<^verbatim>\<open>
  private async getOrSetCache<T>(cacheKey, ttl, fetchFunction: () => Promise<T>): Promise<T> {
    const cached = cache.get<T>(cacheKey);
    if (cached) { console.log(...); return cached; }
    const result = await fetchFunction();
    cache.set(cacheKey, result, ttl);
    console.log(...);
    return result;
  }
  \<close>
  \<open>fetchFunction\<close> acts on the world outside the cache (the data source) and either
  rejects (\<open>Inl\<close>) or resolves (\<open>Inr\<close>); a rejected \<open>await\<close> throws, which ends the
  method before \<open>cache.set\<close>. \<open>t0\<close> is the clock at the lookup and \<open>t1\<close> the clock at
  the store, after the wait. An absent key reads as \<open>undefined\<close>. \<open>t\<close> is the parameter
  \<open>ttl\<close>. The log lines are left out.
\<close>

definition getOrSetCache ::
  "string \<Rightarrow> int \<Rightarrow> ('w \<Rightarrow> ('e + jsval) \<times> 'w) \<Rightarrow> int \<Rightarrow> int \<Rightarrow> node_cache \<Rightarrow> 'w
     \<Rightarrow> ('e + jsval) \<times> node_cache \<times> 'w" where
  "getOrSetCache cacheKey t fetchFunction t0 t1 s w =
     (let (found, s1) = cache_get cacheKey t0 s;
          cached = (case found of None \<Rightarrow> Undefined | Some v \<Rightarrow> v)
      in if truthy cached then (Inr cached, s1, w)
         else (case fetchFunction w of
                 (Inl err, w') \<Rightarrow> (Inl err, s1, w')
               | (Inr result, w') \<Rightarrow> (Inr result, cache_set cacheKey result t t1 s1, w')))"

section \<open>The cache middleware (src/cache/simpleCache.ts)\<close>

text \<open>
  \<^verbatim>\<open>interface AuthenticatedRequest { user?: { _id; escuelaId; tipo }; method; query }\<close>

  \<open>req_user\<close>, \<open>req_method\<close> and \<open>req_query\<close> are the fields \<open>user\<close>, \<open>method\<close>
  and \<open>query\<close>; \<open>req_query\<close> holds the text that \<open>JSON.stringify(req.query)\<close> yields.
\<close>

record user =
  user_id :: string
  escuelaId :: string
  tipo :: string

record AuthenticatedRequest =
  req_user :: "user option"
  req_method :: string
  req_query :: string

text \<open>
  What the middleware does with the request: it calls \<open>next()\<close> untouched, it answers
  \<open>res.json(cached)\<close>, or it replaces \<open>res.json\<close> by the storing wrapper (for the given key
  and time to live) and calls \<open>next()\<close>.
\<close>

datatype middleware_outcome =
    Next
  | Json jsval
  | NextIntercepted string int

text \<open>
  \<^verbatim>\<open>
  export function cacheMiddleware(cacheType: string) {
    const config = cacheConfig[cacheType] || { ttl: 300, desc: 'Default' };
    return (req, res, next) => {
      if (req.method !== 'GET') { return next(); }
      const userKey = req.user ? `${req.user._id}_${req.user.escuelaId}` : 'public';
      const queryKey = JSON.stringify(req.query);
      const cacheKey = `${cacheType}_${userKey}_${queryKey}`;
      const cached = cache.get(cacheKey);
      if (cached) { ...; return res.json(cached); }
      const originalJson = res.json;
      res.json = function (data) { ... };
      next();
    };
  }
  \<close>
  \<open>config_for\<close> is the constant \<open>config\<close> and \<open>middleware_cacheKey\<close> the constant
  \<open>cacheKey\<close> of the source.
\<close>

definition config_for :: "string \<Rightarrow> CacheConfig" where
  "config_for cacheType =
     (case map_of cacheConfig cacheType of
        Some c \<Rightarrow> c
      | None \<Rightarrow> \<lparr>config_ttl = 300, config_desc = ''Default''\<rparr>)"

definition middleware_cacheKey :: "string \<Rightarrow> AuthenticatedRequest \<Rightarrow> string" where
  "middleware_cacheKey cacheType req =
     (let userKey = (case req_user req of
                       Some u \<Rightarrow> user_id u @ ''_'' @ escuelaId u
                     | None \<Rightarrow> ''public'');
          queryKey = req_query req
      in cacheType @ ''_'' @ userKey @ ''_'' @ queryKey)"

definition cacheMiddleware ::
  "string \<Rightarrow> AuthenticatedRequest \<Rightarrow> int \<Rightarrow> node_cache \<Rightarrow> middleware_outcome \<times> node_cache" where
  "cacheMiddleware cacheType req now s =
     (let config = config_for cacheType
      in if req_method req \<noteq> ''GET'' then (Next, s)
         else
           let cacheKey = middleware_cacheKey cacheType req;
               (found, s1) = cache_get cacheKey now s;
               cached = (case found of None \<Rightarrow> Undefined | Some v \<Rightarrow> v)
           in if truthy cached then (Json cached, s1)
              else (NextIntercepted cacheKey (config_ttl config), s1))"

text \<open>
  The wrapper installed on a miss:
  \<^verbatim>\<open>
  res.json = function (data) {
    if (res.statusCode === 200 && data) { cache.set(cacheKey, data, config.ttl); ... }
    originalJson.call(this, data);
  };
  \<close>
  Its effect on the store.
\<close>

definition intercepted_json ::
  "string \<Rightarrow> int \<Rightarrow> int \<Rightarrow> jsval \<Rightarrow> int \<Rightarrow> node_cache \<Rightarrow> node_cache" where
  "intercepted_json cacheKey t statusCode d now s =
     (if statusCode = 200 \<and> truthy d then cache_set cacheKey d t now s else s)"

section \<open>Invalidation (src/cache/simpleCache.ts)\<close>

text \<open>
  \<^verbatim>\<open>
  export function invalidateCache(cacheType, userId, escuelaId): void {
    const userKey = `${userId}_${escuelaId}`;
    const pattern = `${cacheType}_${userKey}`;
    const keys = cache.keys().filter((key) => key.startsWith(pattern));
    keys.forEach((key) => { cache.del(key); ... });
  }
  \<close>
\<close>

definition invalidateCache :: "string \<Rightarrow> string \<Rightarrow> string \<Rightarrow> int \<Rightarrow> node_cache \<Rightarrow> node_cache" where
  "invalidateCache cacheType userId escuelaId' now s =
     (let userKey = userId @ ''_'' @ escuelaId';
          pattern = cacheType @ ''_'' @ userKey;
          keys = filter (\<lambda>key. startsWith key pattern) (cache_keys now s)
      in fold cache_del keys s)"

text \<open>
  \<^verbatim>\<open>
  export function invalidateRelatedCache(primaryType, userId, escuelaId, relatedTypes = []): void {
    const typesToInvalidate = [primaryType, ...relatedTypes];
    typesToInvalidate.forEach((cacheType) => { invalidateCache(cacheType, userId, escuelaId); });
  }
  \<close>
\<close>

definition invalidateRelatedCache ::
  "string \<Rightarrow> string \<Rightarrow> string \<Rightarrow> string list \<Rightarrow> int \<Rightarrow> node_cache \<Rightarrow> node_cache" where
  "invalidateRelatedCache primaryType userId escuelaId' relatedTypes now s =
     (let typesToInvalidate = primaryType # relatedTypes
      in fold (\<lambda>cacheType. invalidateCache cacheType userId escuelaId' now) typesToInvalidate s)"

section \<open>The stats report (src/cache/simpleCache.ts)\<close>

text \<open>
  The numbers the report computes with \<open>/\<close> and \<open>*\<close>. The operands are counters, so the
  only quotients that are not finite are \<open>0 / 0\<close>, which is \<open>NaN\<close>, and \<open>n / 0\<close> for a
  positive \<open>n\<close>, which is \<open>Infinity\<close>. A finite quotient is kept exact (the rounding of the
  floating-point result is not modelled).
\<close>

datatype jsnumber = NaN | Infinity | Finite rat

definition js_div :: "nat \<Rightarrow> nat \<Rightarrow> jsnumber" where
  "js_div a b =
     (if b = 0 then (if a = 0 then NaN else Infinity)
      else Finite (of_nat a / of_nat b))"

fun js_times :: "jsnumber \<Rightarrow> rat \<Rightarrow> jsnumber" where
  "js_times NaN c = NaN"
| "js_times Infinity c = (if c = 0 then NaN else Infinity)"
| "js_times (Finite r) c = Finite (r * c)"

record cache_stats =
  keys :: nat
  hits :: nat
  misses :: nat
  hitRate :: jsnumber
  typeBreakdown :: "string \<rightharpoonup> nat"
  configuredTypes :: "string list"

text \<open>
  \<^verbatim>\<open>
  export function getCacheStats() {
    const stats = cache.getStats();
    const allKeys = cache.keys();
    const typeStats: Record<string, number> = {};
    allKeys.forEach((key) => {
      const type = key.split('_')[0];
      typeStats[type] = (typeStats[type] || 0) + 1;
    });
    return {
      keys: allKeys.length, hits: stats.hits, misses: stats.misses,
      hitRate: (stats.hits / (stats.hits + stats.misses)) * 100,
      typeBreakdown: typeStats, configuredTypes: Object.keys(cacheConfig),
    };
  }
  \<close>
  \<open>key_type\<close> is \<open>key.split('_')[0]\<close>; the array that \<open>split\<close> returns always has an
  element at index 0. \<open>count_type\<close> is the body of the loop.
\<close>

definition key_type :: "string \<Rightarrow> string" where
  "key_type key = (case js_split (CHR ''_'') key of [] \<Rightarrow> ''undefined'' | seg # _ \<Rightarrow> seg)"

definition count_type :: "string \<Rightarrow> (string \<rightharpoonup> nat) \<Rightarrow> (string \<rightharpoonup> nat)" where
  "count_type key typeStats =
     (let type = key_type key
      in typeStats(type \<mapsto> (case typeStats type of None \<Rightarrow> 0 | Some n \<Rightarrow> n) + 1))"

definition getCacheStats :: "int \<Rightarrow> node_cache \<Rightarrow> cache_stats" where
  "getCacheStats now s =
     (let stats = cache_getStats s;
          allKeys = cache_keys now s;
          typeStats = fold count_type allKeys Map.empty
      in \<lparr>keys = length allKeys,
          hits = stats_hits stats,
          misses = stats_misses stats,
          hitRate = js_times (js_div (stats_hits stats) (stats_hits stats + stats_misses stats)) 100,
          typeBreakdown = typeStats,
          configuredTypes = map fst cacheConfig\<rparr>)"

section \<open>The store at its key limit\<close>

text \<open>
  The error that \<open>NodeCache.set\<close> throws when the store is full.
\<close>

datatype cache_error = ECACHEFULL

text \<open>
  \<open>NodeCache.set\<close> as the package \<open>node-cache\<close> behaves under the option
  \<open>maxKeys: 500\<close> of the source (its code is not under \<open>src/\<close>, and the spec's TTLStore
  differs here, see \<open>cache_set\<close>): a call on a store that already holds \<open>maxKeys\<close> keys
  throws \<open>ECACHEFULL\<close> and stores nothing, whether the key is new or not; it evicts
  nothing. Below the limit the call inserts or replaces (the evicting branch of
  \<open>cache_set\<close> is not reached there).
\<close>

definition NodeCache_set ::
  "string \<Rightarrow> jsval \<Rightarrow> int \<Rightarrow> int \<Rightarrow> node_cache \<Rightarrow> cache_error + node_cache" where
  "NodeCache_set key v t now s =
     (if maxEntries s \<le> length (entries s) then Inl ECACHEFULL
      else Inr (cache_set key v t now s))"

text \<open>The store after a call of \<open>set\<close>: the one before when the call threw.\<close>

definition after_set :: "string \<Rightarrow> jsval \<Rightarrow> int \<Rightarrow> int \<Rightarrow> node_cache \<Rightarrow> node_cache" where
  "after_set key v t now s =
     (case NodeCache_set key v t now s of Inl thrown \<Rightarrow> s | Inr s' \<Rightarrow> s')"

text \<open>
  \<open>getOrSetCache\<close> of the two services, with \<open>cache.set\<close> as a parameter that may throw.
  The method calls \<open>cache.set\<close> outside any \<open>try\<close>, so what \<open>cache.set\<close> throws ends the
  method and rejects its promise, after the compute function has resolved.
\<close>

definition getOrSetCache_with ::
  "(string \<Rightarrow> jsval \<Rightarrow> int \<Rightarrow> int \<Rightarrow> node_cache \<Rightarrow> 'e + node_cache)
     \<Rightarrow> string \<Rightarrow> int \<Rightarrow> ('w \<Rightarrow> ('e + jsval) \<times> 'w) \<Rightarrow> int \<Rightarrow> int \<Rightarrow> node_cache \<Rightarrow> 'w
     \<Rightarrow> ('e + jsval) \<times> node_cache \<times> 'w" where
  "getOrSetCache_with store_set cacheKey t fetchFunction t0 t1 s w =
     (let (found, s1) = cache_get cacheKey t0 s;
          cached = (case found of None \<Rightarrow> Undefined | Some v \<Rightarrow> v)
      in if truthy cached then (Inr cached, s1, w)
         else (case fetchFunction w of
                 (Inl err, w') \<Rightarrow> (Inl err, s1, w')
               | (Inr result, w') \<Rightarrow>
                   (case store_set cacheKey result t t1 s1 of
                      Inl thrown \<Rightarrow> (Inl thrown, s1, w')
                    | Inr s2 \<Rightarrow> (Inr result, s2, w'))))"

text \<open>
  A full store, for the examples: \<open>cache\<close> after one user has searched for recipients
  with the 500 query texts \<open>''\<close>, \<open>'a'\<close>, \<open>'aa'\<close>, ...; the key of each search is
  \<open>createCacheKey('destinatarios', userId, escuelaId, query)\<close> (mensaje.service.ts, line 71).
\<close>

definition full_cache :: node_cache where
  "full_cache =
     cache\<lparr>entries :=
       map (\<lambda>n. (createCacheKey ''destinatarios'' [''u1'', ''s1'', replicate n (CHR ''a'')],
                 \<lparr>val = Obj n, storedAt = 0, ttlSeconds = 120\<rparr>))
           [0..<500]\<rparr>"

section \<open>Theorems\<close>

subsection \<open>DashboardCache: expiry on read\<close>

text \<open>
  C2. For every stored entry (key, value, storedAt, ttlSeconds) and every current time
  \<open>now\<close>, \<open>get(key)\<close> returns the stored value and leaves the store as it is when the age
  \<open>now - storedAt\<close> is at most the time to live, and when the age is strictly greater
  \<open>get(key)\<close> returns absent (\<open>null\<close>) and removes the entry from the store. The clock
  counts milliseconds and the time to live is in seconds, so the boundary is
  \<open>ttlSeconds * 1000\<close> milliseconds; an entry exactly at the boundary is still served.
\<close>

theorem DashboardCache_get_ttl:
  assumes "c key = Some \<lparr>data = v, timestamp = stored, ttl = secs\<rparr>"
  shows "(now - stored \<le> secs * 1000 \<longrightarrow>
            DashboardCache_get key now c = (v, c))
       \<and> (now - stored > secs * 1000 \<longrightarrow>
            DashboardCache_get key now c = (Null, c(key := None))
            \<and> snd (DashboardCache_get key now c) key = None)"
  using assms by (simp add: DashboardCache_get_def)

theorem DashboardCache_get_ttl_witness:
  "DashboardCache_get ''k'' 5000 (DashboardCache_set ''k'' (Str ''v'') (Some 5) 0 Map.empty)
     = (Str ''v'', DashboardCache_set ''k'' (Str ''v'') (Some 5) 0 Map.empty)
   \<and> DashboardCache_get ''k'' 5001 (DashboardCache_set ''k'' (Str ''v'') (Some 5) 0 Map.empty)
     = (Null, Map.empty)"
proof -
  let ?c = "DashboardCache_set ''k'' (Str ''v'') (Some 5) 0 Map.empty"
  have stored: "?c ''k'' = Some \<lparr>data = Str ''v'', timestamp = 0, ttl = 5\<rparr>"
    by (simp add: DashboardCache_set_def)
  have gone: "?c(''k'' := None) = Map.empty"
    by (simp add: DashboardCache_set_def)
  note at_boundary = DashboardCache_get_ttl
    [where c = ?c and key = "''k''" and now = 5000, OF stored]
  note past_boundary = DashboardCache_get_ttl
    [where c = ?c and key = "''k''" and now = 5001, OF stored]
  from at_boundary past_boundary show ?thesis by (simp add: gone)
qed

subsection \<open>DashboardCache: a zero time to live\<close>

text \<open>
  C9 as stated fails: an entry stored with \<open>ttlSeconds = 0\<close> and read in the same
  millisecond is served, because the expiry test is the strict \<open>now - timestamp > 0\<close>.
\<close>

theorem DashboardCache_zero_ttl_same_instant_counterexample:
  "fst (DashboardCache_get ''k'' 1000
          (DashboardCache_set ''k'' (Str ''v'') (Some 0) 1000 Map.empty)) = Str ''v''
   \<and> Str ''v'' \<noteq> Null"
  by (simp add: DashboardCache_get_def DashboardCache_set_def)

text \<open>
  C9, amended. An entry stored with \<open>ttlSeconds = 0\<close> is expired on every read at a clock
  reading strictly after the one of the store: \<open>get(key)\<close> returns absent and removes the
  entry. A read at the very clock reading of the store still returns the value.
\<close>

theorem DashboardCache_zero_ttl:
  "(stored < now \<longrightarrow>
      fst (DashboardCache_get key now (DashboardCache_set key v (Some 0) stored c)) = Null
    \<and> snd (DashboardCache_get key now (DashboardCache_set key v (Some 0) stored c)) key = None)
   \<and> fst (DashboardCache_get key stored (DashboardCache_set key v (Some 0) stored c)) = v"
  by (simp add: DashboardCache_get_def DashboardCache_set_def)

theorem DashboardCache_zero_ttl_witness:
  "(1000::int) < 1001
   \<and> fst (DashboardCache_get ''k'' 1001
            (DashboardCache_set ''k'' (Str ''v'') (Some 0) 1000 Map.empty)) = Null
   \<and> snd (DashboardCache_get ''k'' 1001
            (DashboardCache_set ''k'' (Str ''v'') (Some 0) 1000 Map.empty)) ''k'' = None"
  using DashboardCache_zero_ttl [of 1000 1001 "''k''" "Str ''v''" Map.empty] by simp

subsection \<open>The key builder\<close>

lemma js_split_nonempty: "js_split sep s \<noteq> []"
  by (induction s) (auto split: list.splits)

lemma js_split_no_sep: "sep \<notin> set s \<Longrightarrow> js_split sep s = [s]"
  by (induction s) auto

lemma js_split_append:
  "sep \<notin> set t \<Longrightarrow> js_split sep (t @ sep # rest) = t # js_split sep rest"
  by (induction t) auto

lemma js_split_join:
  "\<forall>p \<in> set ps. CHR ''_'' \<notin> set p \<Longrightarrow>
   js_split (CHR ''_'') (js_join ''_'' ps) = (if ps = [] then [[]] else ps)"
proof (induction ps)
  case Nil
  then show ?case by simp
next
  case (Cons x xs)
  then show ?case
    by (cases xs) (simp_all add: js_split_no_sep js_split_append)
qed

lemma js_split_createCacheKey:
  assumes "CHR ''_'' \<notin> set t" "\<forall>p \<in> set ps. CHR ''_'' \<notin> set p"
  shows "js_split (CHR ''_'') (createCacheKey t ps) = t # (if ps = [] then [[]] else ps)"
  using assms by (simp add: createCacheKey_def js_split_append js_split_join)

text \<open>
  C5 as stated fails: the key builder is not injective. An absent parameter list and the
  list holding one empty string give the same key, and so do two inputs that differ only in
  where an underscore belongs to the type name and where it separates two parts.
\<close>

theorem createCacheKey_collision_counterexample:
  "createCacheKey ''dashboard'' [] = createCacheKey ''dashboard'' ['''']
   \<and> (''dashboard'', []) \<noteq> (''dashboard'', [''''])
   \<and> createCacheKey ''dashboard'' [''rol'', ''u1''] = createCacheKey ''dashboard_rol'' [''u1'']
   \<and> (''dashboard'', [''rol'', ''u1'']) \<noteq> (''dashboard_rol'', [''u1''])"
  by (simp add: createCacheKey_def)

text \<open>
  C5, amended. The key builder is a function of its arguments, and it is injective on
  parameters that are free of the delimiter, up to the empty list: for two inputs whose
  parameters contain no underscore, and whose type names are equal or contain no underscore
  either, the keys are equal exactly when the type names are equal and the parameter lists
  are equal, where an empty parameter list counts as the list holding one empty string.
\<close>

theorem createCacheKey_injective_without_delimiter:
  assumes "\<forall>p \<in> set paramsA. CHR ''_'' \<notin> set p" and "\<forall>p \<in> set paramsB. CHR ''_'' \<notin> set p"
    and "typeA = typeB \<or> (CHR ''_'' \<notin> set typeA \<and> CHR ''_'' \<notin> set typeB)"
  shows "(createCacheKey typeA paramsA = createCacheKey typeB paramsB)
         = (typeA = typeB \<and> (if paramsA = [] then [[]] else paramsA) = (if paramsB = [] then [[]] else paramsB))"
proof
  assume eq: "createCacheKey typeA paramsA = createCacheKey typeB paramsB"
  from assms(3) show "typeA = typeB \<and> (if paramsA = [] then [[]] else paramsA) = (if paramsB = [] then [[]] else paramsB)"
  proof
    assume same: "typeA = typeB"
    with eq have "js_join ''_'' paramsA = js_join ''_'' paramsB"
      by (simp add: createCacheKey_def)
    then have "js_split (CHR ''_'') (js_join ''_'' paramsA) = js_split (CHR ''_'') (js_join ''_'' paramsB)"
      by simp
    with assms(1,2) same show ?thesis
      by (simp add: js_split_join)
  next
    assume free: "CHR ''_'' \<notin> set typeA \<and> CHR ''_'' \<notin> set typeB"
    from eq have "js_split (CHR ''_'') (createCacheKey typeA paramsA)
                  = js_split (CHR ''_'') (createCacheKey typeB paramsB)"
      by simp
    with free assms(1,2) show ?thesis
      by (simp add: js_split_createCacheKey)
  qed
next
  assume r: "typeA = typeB \<and> (if paramsA = [] then [[]] else paramsA) = (if paramsB = [] then [[]] else paramsB)"
  have norm: "js_join ''_'' (if ps = [] then [[]] else ps) = js_join ''_'' ps" for ps
    by simp
  from r have "(if paramsA = [] then [[]] else paramsA) = (if paramsB = [] then [[]] else paramsB)"
    by (rule conjunct2)
  then have "js_join ''_'' (if paramsA = [] then [[]] else paramsA)
             = js_join ''_'' (if paramsB = [] then [[]] else paramsB)"
    by (rule arg_cong)
  then have "js_join ''_'' paramsA = js_join ''_'' paramsB"
    by (simp only: norm)
  with r show "createCacheKey typeA paramsA = createCacheKey typeB paramsB"
    by (simp add: createCacheKey_def)
qed

theorem createCacheKey_injective_without_delimiter_witness:
  "createCacheKey ''dashboard'' [''u1'', ''s1''] \<noteq> createCacheKey ''dashboard'' [''u1'', ''s2'']
   \<and> createCacheKey ''dashboard'' [''u1'', ''s1''] \<noteq> createCacheKey ''mensajes'' [''u1'', ''s1'']
   \<and> createCacheKey ''dashboard_rol'' [''u1'', ''s1''] \<noteq> createCacheKey ''dashboard_rol'' [''u1'']"
proof -
  have a: "\<forall>p \<in> set [''u1'', ''s1'']. CHR ''_'' \<notin> set p"
    and b: "\<forall>p \<in> set [''u1'', ''s2'']. CHR ''_'' \<notin> set p"
    and c: "\<forall>p \<in> set [''u1'']. CHR ''_'' \<notin> set p"
    by simp_all
  have same: "''dashboard'' = ''dashboard''
              \<or> (CHR ''_'' \<notin> set ''dashboard'' \<and> CHR ''_'' \<notin> set ''dashboard'')"
    and free: "''dashboard'' = ''mensajes''
              \<or> (CHR ''_'' \<notin> set ''dashboard'' \<and> CHR ''_'' \<notin> set ''mensajes'')"
    and same_rol: "''dashboard_rol'' = ''dashboard_rol''
              \<or> (CHR ''_'' \<notin> set ''dashboard_rol'' \<and> CHR ''_'' \<notin> set ''dashboard_rol'')"
    by simp_all
  from createCacheKey_injective_without_delimiter [OF a b same]
       createCacheKey_injective_without_delimiter [OF a a free]
       createCacheKey_injective_without_delimiter [OF a c same_rol]
  show ?thesis by simp
qed

text \<open>
  C8 as stated fails: with an empty parameter list the key is the type name followed by
  the delimiter, not the type name alone.
\<close>

theorem createCacheKey_no_params_counterexample:
  "createCacheKey ''dashboard'' [] = ''dashboard_''
   \<and> createCacheKey ''dashboard'' [] \<noteq> ''dashboard''"
  by (simp add: createCacheKey_def)

text \<open>
  C8, amended. For every type name, building a key with an empty parameter list yields the
  type name followed by one underscore, and the keys that two different type names get
  with an empty parameter list are different.
\<close>

theorem createCacheKey_no_params:
  "createCacheKey type [] = type @ ''_''
   \<and> (typeA \<noteq> typeB \<longrightarrow> createCacheKey typeA [] \<noteq> createCacheKey typeB [])"
  by (simp add: createCacheKey_def)

theorem createCacheKey_no_params_witness:
  "''dashboard'' \<noteq> ''mensajes''
   \<and> createCacheKey ''dashboard'' [] = ''dashboard_''
   \<and> createCacheKey ''dashboard'' [] \<noteq> createCacheKey ''mensajes'' []"
proof -
  note no_params = createCacheKey_no_params [of "''dashboard''" "''dashboard''" "''mensajes''"]
  have different: "''dashboard'' \<noteq> ''mensajes''"
    by simp
  from no_params have alone: "createCacheKey ''dashboard'' [] = ''dashboard_''"
    by simp
  from no_params different
  have apart: "createCacheKey ''dashboard'' [] \<noteq> createCacheKey ''mensajes'' []"
    by blast
  from different alone apart show ?thesis
    by blast
qed

subsection \<open>Read-through lookup\<close>

lemma map_of_filter_fst_neq:
  "map_of (filter (\<lambda>p. fst p \<noteq> k) xs) k' = (if k' = k then None else map_of xs k')"
  by (induction xs) auto


lemma getOrSetCache_hit:
  "truthy (case fst (cache_get k now s) of None \<Rightarrow> Undefined | Some v \<Rightarrow> v) \<Longrightarrow>
   getOrSetCache k t f now later s w =
     (Inr (case fst (cache_get k now s) of None \<Rightarrow> Undefined | Some v \<Rightarrow> v), snd (cache_get k now s), w)"
  by (auto simp: getOrSetCache_def Let_def split: prod.splits sum.splits)

lemma getOrSetCache_miss:
  "\<not> truthy (case fst (cache_get k now s) of None \<Rightarrow> Undefined | Some v \<Rightarrow> v) \<Longrightarrow>
   getOrSetCache k t f now later s w =
     (case f w of
        (Inl err, w') \<Rightarrow> (Inl err, snd (cache_get k now s), w')
      | (Inr result, w') \<Rightarrow> (Inr result, cache_set k result t later (snd (cache_get k now s)), w'))"
  by (auto simp: getOrSetCache_def Let_def split: prod.splits sum.splits)

lemma miss_stays_miss:
  assumes "\<not> truthy (case fst (cache_get k now s) of None \<Rightarrow> Undefined | Some v \<Rightarrow> v)"
  shows "\<not> truthy (case fst (cache_get k now' (snd (cache_get k now s))) of None \<Rightarrow> Undefined | Some v \<Rightarrow> v)"
  using assms
  by (auto simp: cache_get_def map_of_filter_fst_neq split: option.splits if_splits)

lemma cache_get_entries_subset:
  "set (entries (snd (cache_get k now s))) \<subseteq> set (entries s)"
  by (auto simp: cache_get_def split: option.splits)

lemma cache_get_live:
  assumes "map_of (entries s) key = Some e" and "\<not> expired now e"
  shows "cache_get key now s = (Some (val e), s\<lparr>hitCount := hitCount s + 1\<rparr>)"
  using assms by (simp add: cache_get_def)

text \<open>
  C1. For every key and every compute function: when the lookup misses and the compute
  function rejects, \<open>getOrSetCache\<close> returns that very error, the store is the one the
  lookup left (\<open>cache.set\<close> is not reached, so no entry is added), and every following
  call for the same key, at any clock reading and with any compute function, invokes its
  compute function: its result and its effect on the outside world are those of the
  compute function.
\<close>

theorem getOrSetCache_failure_not_cached:
  fixes fetchFunction :: "'w \<Rightarrow> ('e + jsval) \<times> 'w"
  assumes miss: "\<not> truthy (case fst (cache_get cacheKey now s) of None \<Rightarrow> Undefined | Some v \<Rightarrow> v)"
      and fails: "fst (fetchFunction w) = Inl (err::'e)"
  shows "getOrSetCache cacheKey t fetchFunction now later s w
           = (Inl err, snd (cache_get cacheKey now s), snd (fetchFunction w))
       \<and> set (entries (snd (cache_get cacheKey now s))) \<subseteq> set (entries s)
       \<and> (\<forall>(g :: 'w \<Rightarrow> ('e + jsval) \<times> 'w) t' now' later'.
            fst (getOrSetCache cacheKey t' g now' later' (snd (cache_get cacheKey now s)) (snd (fetchFunction w)))
              = fst (g (snd (fetchFunction w)))
          \<and> snd (snd (getOrSetCache cacheKey t' g now' later' (snd (cache_get cacheKey now s)) (snd (fetchFunction w))))
              = snd (g (snd (fetchFunction w))))"
proof (intro conjI allI)
  from fails obtain w' where fw: "fetchFunction w = (Inl err, w')"
    by (cases "fetchFunction w") simp
  show "getOrSetCache cacheKey t fetchFunction now later s w
           = (Inl err, snd (cache_get cacheKey now s), snd (fetchFunction w))"
    by (simp add: getOrSetCache_miss [OF miss] fw)
  show "set (entries (snd (cache_get cacheKey now s))) \<subseteq> set (entries s)"
    by (rule cache_get_entries_subset)
  fix g :: "'w \<Rightarrow> ('e + jsval) \<times> 'w" and t' now' later'
  let ?s1 = "snd (cache_get cacheKey now s)" and ?w1 = "snd (fetchFunction w)"
  have again: "\<not> truthy (case fst (cache_get cacheKey now' ?s1) of None \<Rightarrow> Undefined | Some v \<Rightarrow> v)"
    by (rule miss_stays_miss [OF miss])
  show "fst (getOrSetCache cacheKey t' g now' later' ?s1 ?w1) = fst (g ?w1)"
    by (simp add: getOrSetCache_miss [OF again] split: prod.splits sum.splits)
  show "snd (snd (getOrSetCache cacheKey t' g now' later' ?s1 ?w1)) = snd (g ?w1)"
    by (simp add: getOrSetCache_miss [OF again] split: prod.splits sum.splits)
qed

theorem getOrSetCache_failure_not_cached_witness:
  "fst (getOrSetCache ''k'' 120 (\<lambda>n::nat. (Inl ''boom'' :: string + jsval, Suc n)) 0 0 cache 0)
     = Inl ''boom''
   \<and> snd (snd (getOrSetCache ''k'' 120 (\<lambda>n::nat. (Inl ''boom'' :: string + jsval, Suc n)) 0 0 cache 0))
     = 1
   \<and> snd (snd (getOrSetCache ''k'' 120 (\<lambda>n::nat. (Inl ''boom'' :: string + jsval, Suc n)) 0 0
               (snd (cache_get ''k'' 0 cache)) 1))
     = 2"
proof -
  let ?f = "\<lambda>n::nat. (Inl ''boom'' :: string + jsval, Suc n)"
  have miss: "\<not> truthy (case fst (cache_get ''k'' 0 cache) of None \<Rightarrow> Undefined | Some v \<Rightarrow> v)"
    by (simp add: cache_get_def cache_def)
  have fails: "fst (?f 0) = Inl ''boom''"
    by simp
  note failed = getOrSetCache_failure_not_cached
    [where fetchFunction = ?f and w = 0 and t = 120 and later = 0, OF miss fails]
  from failed have first:
    "getOrSetCache ''k'' 120 ?f 0 0 cache 0 = (Inl ''boom'', snd (cache_get ''k'' 0 cache), snd (?f 0))"
    by (rule conjunct1)
  from failed have
    "snd (snd (getOrSetCache ''k'' 120 ?f 0 0 (snd (cache_get ''k'' 0 cache)) (snd (?f 0))))
       = snd (?f (snd (?f 0)))"
    by blast
  then have second: "snd (snd (getOrSetCache ''k'' 120 ?f 0 0 (snd (cache_get ''k'' 0 cache)) 1)) = 2"
    by simp
  from first second show ?thesis by simp
qed

text \<open>
  C10. For every key whose entry is present and not expired and holds a falsy value, the
  store returns that value, and the read-through lookup treats it as a miss:
  \<open>getOrSetCache\<close> invokes the compute function (its result and its effect on the outside
  world are those of the compute function), and the cache middleware, on a GET request
  whose key it is, does not answer from the cache but installs the storing wrapper and
  calls \<open>next()\<close>.
\<close>

theorem falsy_value_never_served:
  fixes fetchFunction :: "'w \<Rightarrow> ('e + jsval) \<times> 'w"
  assumes present: "map_of (entries s) key = Some e"
      and live: "\<not> expired now e"
      and falsy: "\<not> truthy (val e)"
  shows "fst (cache_get key now s) = Some (val e)
       \<and> fst (getOrSetCache key t fetchFunction now later s w) = fst (fetchFunction w)
       \<and> snd (snd (getOrSetCache key t fetchFunction now later s w)) = snd (fetchFunction w)
       \<and> (req_method req = ''GET'' \<and> middleware_cacheKey cacheType req = key \<longrightarrow>
            fst (cacheMiddleware cacheType req now s)
              = NextIntercepted key (config_ttl (config_for cacheType)))"
proof -
  have got: "cache_get key now s = (Some (val e), s\<lparr>hitCount := hitCount s + 1\<rparr>)"
    by (rule cache_get_live [OF present live])
  with falsy have miss:
    "\<not> truthy (case fst (cache_get key now s) of None \<Rightarrow> Undefined | Some v \<Rightarrow> v)"
    by simp
  have a: "fst (cache_get key now s) = Some (val e)"
    using got by simp
  have b: "fst (getOrSetCache key t fetchFunction now later s w) = fst (fetchFunction w)"
    by (simp add: getOrSetCache_miss [OF miss] split: prod.splits sum.splits)
  have c: "snd (snd (getOrSetCache key t fetchFunction now later s w)) = snd (fetchFunction w)"
    by (simp add: getOrSetCache_miss [OF miss] split: prod.splits sum.splits)
  have d: "req_method req = ''GET'' \<and> middleware_cacheKey cacheType req = key \<longrightarrow>
            fst (cacheMiddleware cacheType req now s)
              = NextIntercepted key (config_ttl (config_for cacheType))"
    using got falsy by (simp add: cacheMiddleware_def Let_def)
  from a b c d show ?thesis by blast
qed

theorem falsy_value_never_served_witness:
  "fst (cache_get ''dashboard_u1_s1_{}'' 60 (cache_set ''dashboard_u1_s1_{}'' (Num 0) 180 0 cache))
     = Some (Num 0)
   \<and> snd (snd (getOrSetCache ''dashboard_u1_s1_{}'' 180 (\<lambda>n::nat. (Inr (Num 7) :: string + jsval, Suc n))
                 60 61 (cache_set ''dashboard_u1_s1_{}'' (Num 0) 180 0 cache) 0)) = 1
   \<and> fst (cacheMiddleware ''dashboard''
           \<lparr>req_user = Some \<lparr>user_id = ''u1'', escuelaId = ''s1'', tipo = ''DOCENTE''\<rparr>,
            req_method = ''GET'', req_query = ''{}''\<rparr>
           60 (cache_set ''dashboard_u1_s1_{}'' (Num 0) 180 0 cache))
     = NextIntercepted ''dashboard_u1_s1_{}'' 180"
proof -
  let ?s = "cache_set ''dashboard_u1_s1_{}'' (Num 0) 180 0 cache"
  let ?e = "\<lparr>val = Num 0, storedAt = 0, ttlSeconds = 180\<rparr>"
  let ?req = "\<lparr>req_user = Some \<lparr>user_id = ''u1'', escuelaId = ''s1'', tipo = ''DOCENTE''\<rparr>,
               req_method = ''GET'', req_query = ''{}''\<rparr>"
  let ?f = "\<lambda>n::nat. (Inr (Num 7) :: string + jsval, Suc n)"
  have present: "map_of (entries ?s) ''dashboard_u1_s1_{}'' = Some ?e"
    by (simp add: cache_set_def cache_def)
  have live: "\<not> expired 60 ?e"
    by (simp add: expired_def)
  have falsy: "\<not> truthy (val ?e)"
    by simp
  have key: "req_method ?req = ''GET'' \<and> middleware_cacheKey ''dashboard'' ?req = ''dashboard_u1_s1_{}''"
    by (simp add: middleware_cacheKey_def)
  have ttl: "config_ttl (config_for ''dashboard'') = 180"
    by (simp add: config_for_def cacheConfig_def)
  note served = falsy_value_never_served
    [where fetchFunction = ?f and w = 0 and t = 180 and later = 61 and req = ?req
       and cacheType = "''dashboard''", OF present live falsy]
  from served key ttl show ?thesis by simp
qed

subsection \<open>Invalidation by prefix\<close>

lemma map_of_filter_notin:
  "k \<notin> A \<Longrightarrow> map_of (filter (\<lambda>p. fst p \<notin> A) xs) k = map_of xs k"
  by (induction xs) auto

lemma fold_cache_del_entries:
  "entries (fold cache_del ks s) = filter (\<lambda>p. fst p \<notin> set ks) (entries s)"
proof (induction ks arbitrary: s)
  case Nil
  then show ?case by simp
next
  case (Cons k ks)
  have "filter (\<lambda>p. fst p \<notin> set ks) (filter (\<lambda>p. fst p \<noteq> k) xs)
        = filter (\<lambda>p. fst p \<notin> set (k # ks)) xs" for xs :: "(string \<times> entry) list"
    by (induction xs) auto
  with Cons show ?case by (simp add: cache_del_def)
qed

lemma invalidateCache_entries:
  "entries (invalidateCache cacheType userId esc now s)
     = filter (\<lambda>p. fst p \<notin> {k \<in> set (cache_keys now s).
                                 startsWith k (cacheType @ ''_'' @ userId @ ''_'' @ esc)})
         (entries s)"
  by (simp add: invalidateCache_def Let_def fold_cache_del_entries)

lemma invalidateCache_entries_subset:
  "set (entries (invalidateCache cacheType userId esc now s)) \<subseteq> set (entries s)"
  by (auto simp: invalidateCache_entries)

lemma cache_keys_mono:
  "set (entries s') \<subseteq> set (entries s) \<Longrightarrow> set (cache_keys now s') \<subseteq> set (cache_keys now s)"
  by (auto simp: cache_keys_def)

lemma cache_keys_iff:
  "key \<in> set (cache_keys now s) \<longleftrightarrow> (\<exists>e. (key, e) \<in> set (entries s) \<and> \<not> expired now e)"
  by (force simp: cache_keys_def)

lemma invalidateCache_removes:
  assumes "startsWith key (cacheType @ ''_'' @ userId @ ''_'' @ esc)"
  shows "key \<notin> set (cache_keys now (invalidateCache cacheType userId esc now s))"
    and "key \<in> set (cache_keys now s) \<Longrightarrow>
         key \<notin> fst ` set (entries (invalidateCache cacheType userId esc now s))"
  using assms by (auto simp: invalidateCache_entries cache_keys_iff)

lemma invalidateCache_keeps:
  assumes "\<not> startsWith key (cacheType @ ''_'' @ userId @ ''_'' @ esc)"
  shows "map_of (entries (invalidateCache cacheType userId esc now s)) key = map_of (entries s) key"
    and "key \<in> set (cache_keys now s) \<Longrightarrow>
         key \<in> set (cache_keys now (invalidateCache cacheType userId esc now s))"
proof -
  from assms have out: "key \<notin> {k \<in> set (cache_keys now s).
                                   startsWith k (cacheType @ ''_'' @ userId @ ''_'' @ esc)}"
    by simp
  show "map_of (entries (invalidateCache cacheType userId esc now s)) key = map_of (entries s) key"
    unfolding invalidateCache_entries using out by (rule map_of_filter_notin)
  show "key \<in> set (cache_keys now (invalidateCache cacheType userId esc now s))"
    if "key \<in> set (cache_keys now s)"
    using that assms by (auto simp: invalidateCache_entries cache_keys_iff)
qed

lemma fold_invalidate_subset:
  "set (entries (fold (\<lambda>cacheType. invalidateCache cacheType userId esc now) types s))
     \<subseteq> set (entries s)"
proof (induction types arbitrary: s)
  case Nil
  then show ?case by simp
next
  case (Cons ty types)
  have "set (entries (fold (\<lambda>cacheType. invalidateCache cacheType userId esc now) types
                (invalidateCache ty userId esc now s)))
        \<subseteq> set (entries (invalidateCache ty userId esc now s))"
    by (rule Cons.IH)
  also have "\<dots> \<subseteq> set (entries s)"
    by (rule invalidateCache_entries_subset)
  finally show ?case by simp
qed

lemma fold_invalidate_keeps:
  "\<forall>ty \<in> set types. \<not> startsWith key (ty @ ''_'' @ userId @ ''_'' @ esc) \<Longrightarrow>
   map_of (entries (fold (\<lambda>cacheType. invalidateCache cacheType userId esc now) types s)) key
     = map_of (entries s) key"
  by (induction types arbitrary: s) (simp_all add: invalidateCache_keeps(1))

lemma fold_invalidate_removes:
  "\<exists>ty \<in> set types. startsWith key (ty @ ''_'' @ userId @ ''_'' @ esc) \<Longrightarrow>
   key \<notin> set (cache_keys now (fold (\<lambda>cacheType. invalidateCache cacheType userId esc now) types s))
   \<and> (key \<in> set (cache_keys now s) \<longrightarrow>
        key \<notin> fst ` set (entries (fold (\<lambda>cacheType. invalidateCache cacheType userId esc now) types s)))"
proof (induction types arbitrary: s)
  case Nil
  then show ?case by simp
next
  case (Cons ty types)
  let ?inv = "\<lambda>cacheType. invalidateCache cacheType userId esc now"
  let ?s1 = "invalidateCache ty userId esc now s"
  show ?case
  proof (cases "startsWith key (ty @ ''_'' @ userId @ ''_'' @ esc)")
    case True
    have sub: "set (entries (fold ?inv types ?s1)) \<subseteq> set (entries ?s1)"
      by (rule fold_invalidate_subset)
    from True have gone: "key \<notin> set (cache_keys now ?s1)"
      by (rule invalidateCache_removes(1))
    from cache_keys_mono [OF sub] gone
    have a: "key \<notin> set (cache_keys now (fold ?inv types ?s1))"
      by blast
    have b: "key \<notin> fst ` set (entries (fold ?inv types ?s1))" if "key \<in> set (cache_keys now s)"
    proof -
      from True that have "key \<notin> fst ` set (entries ?s1)"
        by (rule invalidateCache_removes(2))
      with sub show ?thesis by blast
    qed
    from a b show ?thesis by simp
  next
    case False
    with Cons.prems have rest: "\<exists>ty \<in> set types. startsWith key (ty @ ''_'' @ userId @ ''_'' @ esc)"
      by simp
    from Cons.IH [OF rest, of ?s1] invalidateCache_keeps(2) [OF False, of now s]
    show ?thesis by simp
  qed
qed

text \<open>
  C3. For every store contents, \<open>invalidateRelatedCache(primaryType, userId, escuelaId,
  relatedTypes)\<close> removes exactly the keys that start with the prefix built from
  (type, userId, escuelaId) for the primary type or for one of the related types: such a
  key is no longer among the keys of the store, and its entry is gone if the key was among
  them before; the entry of every other key is unchanged.
\<close>

theorem invalidateRelatedCache_scope:
  "\<forall>key.
     (if \<exists>cacheType \<in> set (primaryType # relatedTypes).
            startsWith key (createCacheKey cacheType [userId, esc])
      then key \<notin> set (cache_keys now
                        (invalidateRelatedCache primaryType userId esc relatedTypes now s))
           \<and> (key \<in> set (cache_keys now s) \<longrightarrow>
                map_of (entries (invalidateRelatedCache primaryType userId esc relatedTypes now s)) key
                  = None)
      else map_of (entries (invalidateRelatedCache primaryType userId esc relatedTypes now s)) key
             = map_of (entries s) key)"
proof
  fix key
  let ?types = "primaryType # relatedTypes"
  let ?s' = "invalidateRelatedCache primaryType userId esc relatedTypes now s"
  have s': "?s' = fold (\<lambda>cacheType. invalidateCache cacheType userId esc now) ?types s"
    by (simp add: invalidateRelatedCache_def)
  have pat: "createCacheKey ty [userId, esc] = ty @ ''_'' @ userId @ ''_'' @ esc" for ty
    by (simp add: createCacheKey_def)
  show "if \<exists>cacheType \<in> set ?types. startsWith key (createCacheKey cacheType [userId, esc])
        then key \<notin> set (cache_keys now ?s')
             \<and> (key \<in> set (cache_keys now s) \<longrightarrow> map_of (entries ?s') key = None)
        else map_of (entries ?s') key = map_of (entries s) key"
  proof (cases "\<exists>cacheType \<in> set ?types. startsWith key (createCacheKey cacheType [userId, esc])")
    case True
    then have m: "\<exists>ty \<in> set ?types. startsWith key (ty @ ''_'' @ userId @ ''_'' @ esc)"
      by (simp only: pat)
    from fold_invalidate_removes [OF m, of now s]
    have "key \<notin> set (cache_keys now ?s')
          \<and> (key \<in> set (cache_keys now s) \<longrightarrow> map_of (entries ?s') key = None)"
      by (simp add: s' map_of_eq_None_iff)
    with True show ?thesis
      by (simp only: if_True) blast
  next
    case False
    then have m: "\<forall>ty \<in> set ?types. \<not> startsWith key (ty @ ''_'' @ userId @ ''_'' @ esc)"
      by (simp only: pat) blast
    from fold_invalidate_keeps [OF m, of now s] False show ?thesis
      by (simp only: s' if_False)
  qed
qed

theorem invalidateRelatedCache_scope_witness:
  \<open>''dashboard_u1_s1_{}'' \<notin> set (cache_keys 1
       (invalidateRelatedCache ''dashboard'' ''u1'' ''s1'' [] 1
          (cache_set ''dashboard_u2_s1_{}'' (Obj 3) 180 0
            (cache_set ''dashboard_u1_s1_{"q":"x"}'' (Obj 2) 180 0
              (cache_set ''dashboard_u1_s1_{}'' (Obj 1) 180 0 cache)))))
   \<and> ''dashboard_u1_s1_{"q":"x"}'' \<notin> set (cache_keys 1
       (invalidateRelatedCache ''dashboard'' ''u1'' ''s1'' [] 1
          (cache_set ''dashboard_u2_s1_{}'' (Obj 3) 180 0
            (cache_set ''dashboard_u1_s1_{"q":"x"}'' (Obj 2) 180 0
              (cache_set ''dashboard_u1_s1_{}'' (Obj 1) 180 0 cache)))))
   \<and> map_of (entries
       (invalidateRelatedCache ''dashboard'' ''u1'' ''s1'' [] 1
          (cache_set ''dashboard_u2_s1_{}'' (Obj 3) 180 0
            (cache_set ''dashboard_u1_s1_{"q":"x"}'' (Obj 2) 180 0
              (cache_set ''dashboard_u1_s1_{}'' (Obj 1) 180 0 cache))))) ''dashboard_u2_s1_{}''
     = Some \<lparr>val = Obj 3, storedAt = 0, ttlSeconds = 180\<rparr>\<close>
proof -
  let ?s = \<open>cache_set ''dashboard_u2_s1_{}'' (Obj 3) 180 0
            (cache_set ''dashboard_u1_s1_{"q":"x"}'' (Obj 2) 180 0
              (cache_set ''dashboard_u1_s1_{}'' (Obj 1) 180 0 cache))\<close>
  note scope = invalidateRelatedCache_scope
    [where primaryType = "''dashboard''" and relatedTypes = "[]" and userId = "''u1''"
       and esc = "''s1''" and now = 1 and s = ?s]
  from scope [THEN spec, of "''dashboard_u1_s1_{}''"]
  have first: "''dashboard_u1_s1_{}'' \<notin> set (cache_keys 1
       (invalidateRelatedCache ''dashboard'' ''u1'' ''s1'' [] 1 ?s))"
    by (simp add: startsWith_def createCacheKey_def)
  from scope [THEN spec, of \<open>''dashboard_u1_s1_{"q":"x"}''\<close>]
  have second: \<open>''dashboard_u1_s1_{"q":"x"}'' \<notin> set (cache_keys 1
       (invalidateRelatedCache ''dashboard'' ''u1'' ''s1'' [] 1 ?s))\<close>
    by (simp add: startsWith_def createCacheKey_def)
  have before: "map_of (entries ?s) ''dashboard_u2_s1_{}''
                = Some \<lparr>val = Obj 3, storedAt = 0, ttlSeconds = 180\<rparr>"
    by (simp add: cache_set_def cache_def)
  from scope [THEN spec, of "''dashboard_u2_s1_{}''"]
  have third: "map_of (entries (invalidateRelatedCache ''dashboard'' ''u1'' ''s1'' [] 1 ?s))
                 ''dashboard_u2_s1_{}'' = map_of (entries ?s) ''dashboard_u2_s1_{}''"
    by (simp add: startsWith_def createCacheKey_def)
  from first second third before show ?thesis by simp
qed

subsection \<open>The stats report\<close>

text \<open>
  C7 at the input where it fails: on a store that has counted no hit and no miss the
  report computes \<open>0 / 0 * 100\<close>, which is \<open>NaN\<close> and not 0; there is no guard for the
  zero denominator.
\<close>

theorem getCacheStats_hitRate_fresh: "hitRate (getCacheStats 0 cache) = NaN"
  by (simp add: getCacheStats_def cache_getStats_def cache_def js_div_def Let_def)

text \<open>
  C6 at the input where it fails: the middleware of the configured type \<open>dashboard_rol\<close>
  stores its answers under keys that begin with \<open>dashboard_rol_\<close>; the report takes the
  text before the first underscore as the type, so it counts such a key under
  \<open>dashboard\<close> and has no count for \<open>dashboard_rol\<close>. For a key of the type
  \<open>promedio_periodo\<close> the segment is \<open>promedio\<close>, which the policy table does not hold.
\<close>

theorem getCacheStats_first_segment:
  "fst (cacheMiddleware ''dashboard_rol''
          \<lparr>req_user = Some \<lparr>user_id = ''u1'', escuelaId = ''s1'', tipo = ''DOCENTE''\<rparr>,
           req_method = ''GET'', req_query = ''{}''\<rparr> 0 cache)
     = NextIntercepted ''dashboard_rol_u1_s1_{}'' 300
   \<and> typeBreakdown (getCacheStats 1
        (intercepted_json ''dashboard_rol_u1_s1_{}'' 300 200 (Obj 1) 0 cache)) ''dashboard'' = Some 1
   \<and> typeBreakdown (getCacheStats 1
        (intercepted_json ''dashboard_rol_u1_s1_{}'' 300 200 (Obj 1) 0 cache)) ''dashboard_rol'' = None
   \<and> key_type (createCacheKey ''promedio_periodo'' [''e1'', ''2'']) = ''promedio''
   \<and> map_of cacheConfig ''promedio'' = None"
  by (simp add: cacheMiddleware_def middleware_cacheKey_def config_for_def cacheConfig_def
      cache_get_def cache_def intercepted_json_def cache_set_def getCacheStats_def
      cache_keys_def expired_def count_type_def key_type_def createCacheKey_def Let_def)

subsection \<open>The store: capacity\<close>

lemma getOrSetCache_with_never_throwing:
  "getOrSetCache_with (\<lambda>key v t now s. Inr (cache_set key v t now s)) = getOrSetCache"
  by (intro ext) (auto simp: getOrSetCache_with_def getOrSetCache_def Let_def split: prod.splits sum.splits)

lemma NodeCache_set_below:
  "length (entries s) < maxEntries s \<Longrightarrow> NodeCache_set key v t now s = Inr (cache_set key v t now s)"
  by (simp add: NodeCache_set_def)

lemma cache_set_maxEntries: "maxEntries (cache_set key v t now s) = maxEntries s"
  by (simp add: cache_set_def Let_def)

lemma filter_key_shorter:
  "key \<in> fst ` set xs \<Longrightarrow> length (filter (\<lambda>p. fst p \<noteq> key) xs) < length xs"
proof -
  assume "key \<in> fst ` set xs"
  then obtain p where "p \<in> set xs" and "\<not> fst p \<noteq> key"
    by auto
  then show ?thesis
    by (rule length_filter_less)
qed

lemma cache_set_below_length:
  assumes "length (entries s) < maxEntries s"
  shows "length (entries (cache_set key v t now s)) \<le> maxEntries s"
proof (cases "key \<in> fst ` set (entries s)")
  case True
  from filter_key_shorter [OF True] assms True show ?thesis
    by (simp add: cache_set_def Let_def)
next
  case False
  with assms show ?thesis
    by (simp add: cache_set_def Let_def)
qed

lemma after_set_full:
  "maxEntries s \<le> length (entries s) \<Longrightarrow> after_set key v t now s = s"
  by (simp add: after_set_def NodeCache_set_def)

lemma after_set_maxEntries: "maxEntries (after_set key v t now s) = maxEntries s"
  by (simp add: after_set_def NodeCache_set_def cache_set_maxEntries)

lemma after_set_length:
  assumes "length (entries s) \<le> maxEntries s"
  shows "length (entries (after_set key v t now s)) \<le> maxEntries s"
proof (cases "maxEntries s \<le> length (entries s)")
  case True
  with assms show ?thesis by (simp add: after_set_full)
next
  case False
  then have below: "length (entries s) < maxEntries s" by simp
  from cache_set_below_length [OF below] False show ?thesis
    by (simp add: after_set_def NodeCache_set_def)
qed

lemma fold_after_set_bound:
  assumes "length (entries s) \<le> maxEntries s"
  shows "maxEntries (fold (\<lambda>(key, v, t, now). after_set key v t now) ops s) = maxEntries s
       \<and> length (entries (fold (\<lambda>(key, v, t, now). after_set key v t now) ops s)) \<le> maxEntries s"
  using assms
proof (induction ops arbitrary: s)
  case Nil
  then show ?case by simp
next
  case (Cons op ops)
  obtain key v t now where op: "op = (key, v, t, now)"
    by (cases op) auto
  let ?s1 = "after_set key v t now s"
  have m: "maxEntries ?s1 = maxEntries s"
    by (rule after_set_maxEntries)
  have l: "length (entries ?s1) \<le> maxEntries ?s1"
    using after_set_length [OF Cons.prems] m by simp
  from Cons.IH [OF l] m op show ?case by simp
qed

lemma fold_after_set_full:
  "maxEntries s \<le> length (entries s) \<Longrightarrow>
   fold (\<lambda>(key, v, t, now). after_set key v t now) ops s = s"
  by (induction ops) (auto simp: after_set_full)

lemma cache_keys_length: "length (cache_keys now s) \<le> length (entries s)"
  by (simp add: cache_keys_def)

lemma full_cache_length: "length (entries full_cache) = 500"
  by (simp add: full_cache_def cache_def)

lemma full_cache_maxEntries: "maxEntries full_cache = 500"
  by (simp add: full_cache_def cache_def)

lemma full_cache_fresh: "createCacheKey ''acudientes'' [''e1''] \<notin> fst ` set (entries full_cache)"
  by (auto simp: full_cache_def cache_def createCacheKey_def)

text \<open>
  C4 as stated fails. On the full store, a set of a new key evicts nothing and stores
  nothing: the store throws \<open>ECACHEFULL\<close> and stays as it was. \<open>getOrSetCache\<close> then
  rejects with that error, although its compute function has resolved.
\<close>

theorem NodeCache_set_full_counterexample:
  "length (entries full_cache) = maxEntries full_cache
   \<and> maxEntries full_cache = 500
   \<and> createCacheKey ''acudientes'' [''e1''] \<notin> fst ` set (entries full_cache)
   \<and> NodeCache_set (createCacheKey ''acudientes'' [''e1'']) (Obj 0) 300 1 full_cache = Inl ECACHEFULL
   \<and> after_set (createCacheKey ''acudientes'' [''e1'']) (Obj 0) 300 1 full_cache = full_cache
   \<and> getOrSetCache_with NodeCache_set (createCacheKey ''acudientes'' [''e1'']) 300
        (\<lambda>n::nat. (Inr (Obj 0), Suc n)) 1 1 full_cache 0
      = (Inl ECACHEFULL, full_cache\<lparr>missCount := 1\<rparr>, 1)"
proof -
  have miss: "map_of (entries full_cache) (createCacheKey ''acudientes'' [''e1'']) = None"
    using full_cache_fresh by (simp add: map_of_eq_None_iff)
  have counters: "missCount full_cache = 0"
    by (simp add: full_cache_def cache_def)
  have looked: "cache_get (createCacheKey ''acudientes'' [''e1'']) 1 full_cache
                  = (None, full_cache\<lparr>missCount := 1\<rparr>)"
    by (simp add: cache_get_def miss counters)
  have thrown: "NodeCache_set k v t now (full_cache\<lparr>missCount := m\<rparr>) = Inl ECACHEFULL" for k v t now m
    by (simp add: NodeCache_set_def full_cache_length full_cache_maxEntries)
  have surfaced: "getOrSetCache_with NodeCache_set (createCacheKey ''acudientes'' [''e1'']) 300
        (\<lambda>n::nat. (Inr (Obj 0), Suc n)) 1 1 full_cache 0
      = (Inl ECACHEFULL, full_cache\<lparr>missCount := 1\<rparr>, 1)"
    by (simp add: getOrSetCache_with_def looked thrown)
  show ?thesis
    by (simp add: full_cache_length full_cache_maxEntries full_cache_fresh surfaced
        NodeCache_set_def after_set_def)
qed

text \<open>
  C4, amended. For every sequence of set operations on a store that starts within its
  capacity, the store never holds more than \<open>maxEntries\<close> entries, live or not (500 for
  \<open>cache\<close>). A set on a store at capacity is refused with \<open>ECACHEFULL\<close>, whatever the key;
  it stores nothing and evicts nothing, so a full store stays as it is under every further
  sequence of sets.
\<close>

theorem NodeCache_set_capacity_bound:
  assumes "length (entries s) \<le> maxEntries s"
  shows "length (entries (fold (\<lambda>(key, v, t, now). after_set key v t now) ops s)) \<le> maxEntries s
       \<and> (\<forall>now. length (cache_keys now (fold (\<lambda>(key, v, t, now). after_set key v t now) ops s))
                   \<le> maxEntries s)
       \<and> (length (entries s) = maxEntries s \<longrightarrow>
            (\<forall>key v t now. NodeCache_set key v t now s = Inl ECACHEFULL)
            \<and> fold (\<lambda>(key, v, t, now). after_set key v t now) ops s = s)"
proof (intro conjI allI impI)
  let ?s' = "fold (\<lambda>(key, v, t, now). after_set key v t now) ops s"
  from fold_after_set_bound [OF assms, of ops]
  show bound: "length (entries ?s') \<le> maxEntries s"
    by simp
  show "length (cache_keys now ?s') \<le> maxEntries s" for now
    using cache_keys_length [of now ?s'] bound by simp
  assume full: "length (entries s) = maxEntries s"
  then show "NodeCache_set key v t now s = Inl ECACHEFULL" for key v t now
    by (simp add: NodeCache_set_def)
  from full show "?s' = s"
    by (simp add: fold_after_set_full)
qed

theorem NodeCache_set_capacity_bound_witness:
  "length (entries cache) \<le> maxEntries cache
   \<and> length (entries (fold (\<lambda>(key, v, t, now). after_set key v t now)
        [(''a'', Obj 1, 60, 0), (''b'', Obj 2, 60, 1), (''a'', Obj 3, 60, 2)] cache)) \<le> 500
   \<and> length (entries full_cache) = maxEntries full_cache
   \<and> fold (\<lambda>(key, v, t, now). after_set key v t now)
        [(createCacheKey ''acudientes'' [''e1''], Obj 0, 300, 1),
         (createCacheKey ''destinatarios'' [''u1'', ''s1'', ''''], Obj 9, 120, 2)] full_cache
      = full_cache"
proof -
  have fits: "length (entries cache) \<le> maxEntries cache" and max: "maxEntries cache = 500"
    by (simp_all add: cache_def)
  have full_fits: "length (entries full_cache) \<le> maxEntries full_cache"
    and full: "length (entries full_cache) = maxEntries full_cache"
    by (simp_all add: full_cache_length full_cache_maxEntries)
  from NodeCache_set_capacity_bound
    [OF fits, of "[(''a'', Obj 1, 60, 0), (''b'', Obj 2, 60, 1), (''a'', Obj 3, 60, 2)]"]
  have bound: "length (entries (fold (\<lambda>(key, v, t, now). after_set key v t now)
        [(''a'', Obj 1, 60, 0), (''b'', Obj 2, 60, 1), (''a'', Obj 3, 60, 2)] cache)) \<le> 500"
    by (simp only: max)
  from NodeCache_set_capacity_bound
    [OF full_fits, of "[(createCacheKey ''acudientes'' [''e1''], Obj 0, 300, 1),
         (createCacheKey ''destinatarios'' [''u1'', ''s1'', ''''], Obj 9, 120, 2)]"] full
  have stays: "fold (\<lambda>(key, v, t, now). after_set key v t now)
        [(createCacheKey ''acudientes'' [''e1''], Obj 0, 300, 1),
         (createCacheKey ''destinatarios'' [''u1'', ''s1'', ''''], Obj 9, 120, 2)] full_cache
      = full_cache"
    by blast
  from fits bound full stays show ?thesis by blast
qed

end
